theory Spec2Isabelle
  imports
    Main
    "HOL-Library.Char_ord"
    "HOL-Library.List_Lexorder"
    "HOL-Library.AList"
    "HOL-Library.Multiset"
    "HOL-Library.Sublist"
begin

section \<open>The merged order table\<close>

text \<open>
  \<^verbatim>\<open>Category_edit.py\<close> joins the order items with their orders into \<^verbatim>\<open>df_merged\<close>. The two
  computations verified here, the consistency streak (lines 189 to 200) and the
  basket pairs (lines 228 to 239), read four of its columns. A row of the table is a
  record of these columns and the table is the list of its rows, in row order. Every
  row has all four values: a row with a missing value is outside this model. The
  streak is computed from the whole table \<^verbatim>\<open>df_merged\<close>, the pairs from the filtered
  table \<^verbatim>\<open>df_merged_filtered\<close>; each computation is a function of the table it reads.

  Product ids and months are strings (\<^verbatim>\<open>selling_sku_id\<close> is sliced with \<^verbatim>\<open>.str\<close>, the
  month is made with \<^verbatim>\<open>astype(str)\<close>): Python compares them code point by code point,
  which is the lexicographic order of \<^typ>\<open>string\<close> on their UTF-8 bytes. The order ids
  have the type that \<^verbatim>\<open>read_csv\<close> gives the column, integers when every id is written
  with digits only and strings otherwise, and \<^verbatim>\<open>groupby\<close> sorts the ids in the order of
  that type. The table is therefore polymorphic in the type \<open>'o\<close> of the order ids, a
  linear order: \<^typ>\<open>int\<close> with the numeric order, or \<^typ>\<open>string\<close>. The column
  \<^verbatim>\<open>subtotal\<close> is numeric; it is modelled by exact integers (an amount in the smallest
  currency unit), so that sums are exact.
\<close>

record 'o SalesRecord =
  order_id :: 'o
  selling_sku_id :: string
  order_month :: string
  subtotal :: int

type_synonym 'o DataFrame = "'o SalesRecord list"

section \<open>Library operations used by the script\<close>

text \<open>
  \<^verbatim>\<open>Series.unique()\<close>: the distinct values, in the order of their first appearance.
\<close>

definition unique :: "'a list \<Rightarrow> 'a list" where
  "unique xs = rev (remdups (rev xs))"

text \<open>
  \<^verbatim>\<open>sorted(xs)\<close> is the stable sort \<^const>\<open>sort\<close>. \<^verbatim>\<open>sorted(xs, key=f, reverse=True)\<close>
  reverses the list, sorts it stably by the key and reverses the result, so that equal
  keys keep their original order.
\<close>

definition sorted_reverse :: "('a \<Rightarrow> 'k::linorder) \<Rightarrow> 'a list \<Rightarrow> 'a list" where
  "sorted_reverse f xs = rev (sort_key f (rev xs))"

text \<open>
  \<^verbatim>\<open>itertools.combinations(xs, 2)\<close>: the pairs of the elements at positions \<open>i < j\<close>, in the
  lexicographic order of the positions.
\<close>

fun combinations2 :: "'a list \<Rightarrow> ('a \<times> 'a) list" where
  "combinations2 [] = []"
| "combinations2 (x # xs) = map (Pair x) xs @ combinations2 xs"

text \<open>
  A \<^verbatim>\<open>dict\<close> keeps its keys in insertion order: it is an association list with distinct
  keys, and \<^verbatim>\<open>d[k] = v\<close> is \<^const>\<open>AList.update\<close>, which overwrites the value of a present
  key in place and appends an absent key at the end. A \<^verbatim>\<open>Counter\<close> is a \<^verbatim>\<open>dict\<close> of counts;
  \<^verbatim>\<open>Counter.update(iterable)\<close> runs \<^verbatim>\<open>self[elem] = self.get(elem, 0) + 1\<close> over the elements.
\<close>

type_synonym 'a Counter = "('a \<times> nat) list"

definition counter_get :: "'a Counter \<Rightarrow> 'a \<Rightarrow> nat" where
  "counter_get c k = (case map_of c k of None \<Rightarrow> 0 | Some v \<Rightarrow> v)"

definition counter_incr :: "'a Counter \<Rightarrow> 'a \<Rightarrow> 'a Counter" where
  "counter_incr c k = AList.update k (counter_get c k + 1) c"

definition counter_update :: "'a Counter \<Rightarrow> 'a list \<Rightarrow> 'a Counter" where
  "counter_update c xs = foldl counter_incr c xs"

text \<open>
  \<^verbatim>\<open>Counter.most_common(n)\<close> is \<^verbatim>\<open>heapq.nlargest(n, self.items(), key=itemgetter(1))\<close>, which
  is \<^verbatim>\<open>sorted(self.items(), key=itemgetter(1), reverse=True)[:n]\<close>.
\<close>

definition most_common :: "nat \<Rightarrow> 'a Counter \<Rightarrow> ('a \<times> nat) list" where
  "most_common n c = take n (sorted_reverse snd c)"

section \<open>Consistency streak (lines 189 to 200)\<close>

text \<open>
  \<^verbatim>\<open>pivot_table(index='selling_sku_id', columns='order_month', values='subtotal',
  aggfunc='sum')\<close> has one row per distinct SKU and one column per distinct month, both
  in ascending order. A cell holds the sum of the subtotals of the rows of that SKU
  and month, and is missing (NaN) when there is no such row; \<^verbatim>\<open>fillna(0)\<close> then puts 0
  there.
\<close>

definition pivot_cell :: "'o DataFrame \<Rightarrow> string \<Rightarrow> string \<Rightarrow> int option" where
  "pivot_cell df sku month =
     (case filter (\<lambda>r. selling_sku_id r = sku \<and> order_month r = month) df of
        [] \<Rightarrow> None
      | rs \<Rightarrow> Some (sum_list (map subtotal rs)))"

definition fillna :: "int \<Rightarrow> int option \<Rightarrow> int" where
  "fillna d v = (case v of None \<Rightarrow> d | Some x \<Rightarrow> x)"

definition pivot_monthly :: "'o DataFrame \<Rightarrow> (string \<times> (string \<times> int) list) list" where
  "pivot_monthly df =
     map (\<lambda>sku. (sku, map (\<lambda>month. (month, fillna 0 (pivot_cell df sku month)))
                         (sort (unique (map order_month df)))))
         (sort (unique (map selling_sku_id df)))"

text \<open>
  The list of periods is not an input of its own: it is
  \<^verbatim>\<open>sorted(df_merged['order_month'].unique(), reverse=True)\<close>, the distinct months of the
  same table, the newest first.
\<close>

definition latest_months :: "'o DataFrame \<Rightarrow> string list" where
  "latest_months df = sorted_reverse (\<lambda>m. m) (unique (map order_month df))"

text \<open>
  \<^verbatim>\<open>row[month]\<close> raises \<^verbatim>\<open>KeyError\<close> when the row has no such column. The inner loop counts
  the months from the newest one while the cell is positive and leaves at the first
  cell that is not.
\<close>

datatype error = KeyError string

fun current_streak :: "(string \<times> int) list \<Rightarrow> string list \<Rightarrow> nat \<Rightarrow> error + nat" where
  "current_streak row [] n = Inr n"
| "current_streak row (month # months) n =
     (case map_of row month of
        None \<Rightarrow> Inl (KeyError month)
      | Some v \<Rightarrow> if 0 < v then current_streak row months (n + 1) else Inr n)"

fun streaks_loop ::
  "(string \<times> (string \<times> int) list) list \<Rightarrow> string list \<Rightarrow> (string \<times> nat) list
    \<Rightarrow> error + (string \<times> nat) list" where
  "streaks_loop [] months streaks = Inr streaks"
| "streaks_loop ((sku, row) # rows) months streaks =
     (case current_streak row months 0 of
        Inl e \<Rightarrow> Inl e
      | Inr n \<Rightarrow> streaks_loop rows months (AList.update sku n streaks))"

definition streaks :: "'o DataFrame \<Rightarrow> error + (string \<times> nat) list" where
  "streaks df = streaks_loop (pivot_monthly df) (latest_months df) []"

section \<open>Basket pairs (lines 228 to 239)\<close>

text \<open>
  \<^verbatim>\<open>groupby('order_id')['selling_sku_id']\<close> has one group per distinct order id, in
  ascending order of the ids (the order of their type); a group holds the SKUs of the rows of that order, in row
  order. \<^verbatim>\<open>count()\<close> gives the number of rows of each group.
\<close>

definition group_skus :: "'o DataFrame \<Rightarrow> 'o \<Rightarrow> string list" where
  "group_skus df oid = map selling_sku_id (filter (\<lambda>r. order_id r = oid) df)"

definition group_keys :: "'o::linorder DataFrame \<Rightarrow> 'o list" where
  "group_keys df = sort (unique (map order_id df))"

definition order_counts :: "'o::linorder DataFrame \<Rightarrow> ('o \<times> nat) list" where
  "order_counts df = map (\<lambda>oid. (oid, length (group_skus df oid))) (group_keys df)"

definition multi_item_orders :: "'o::linorder DataFrame \<Rightarrow> 'o list" where
  "multi_item_orders df = map fst (filter (\<lambda>(oid, n). 1 < n) (order_counts df))"

definition df_basket :: "'o::linorder DataFrame \<Rightarrow> 'o DataFrame" where
  "df_basket df = filter (\<lambda>r. order_id r \<in> set (multi_item_orders df)) df"

definition baskets :: "'o::linorder DataFrame \<Rightarrow> string list list" where
  "baskets dfb = map (group_skus dfb) (group_keys dfb)"

definition pair_counts :: "string list list \<Rightarrow> (string \<times> string) Counter" where
  "pair_counts bs = foldl (\<lambda>c products. counter_update c (combinations2 (sort products))) [] bs"

text \<open>
  The pairs are computed only when \<^verbatim>\<open>df_basket\<close> has a row; otherwise the page shows a
  notice and no pair at all, which is the empty list here. The number of pairs kept is
  the constant 20 of \<^verbatim>\<open>pair_counts.most_common(20)\<close>.
\<close>

definition df_pairs :: "'o::linorder DataFrame \<Rightarrow> ((string \<times> string) \<times> nat) list" where
  "df_pairs df =
     (let dfb = df_basket df
      in if dfb = [] then [] else most_common 20 (pair_counts (baskets dfb)))"

section \<open>Reference functions for the properties\<close>

text \<open>
  The aggregated amount of a product in a period: the sum of the subtotals of its rows
  in that period, 0 when it has none.
\<close>

definition period_amount :: "'o DataFrame \<Rightarrow> string \<Rightarrow> string \<Rightarrow> int" where
  "period_amount df sku period =
     sum_list (map subtotal (filter (\<lambda>r. selling_sku_id r = sku \<and> order_month r = period) df))"

text \<open>
  The streak as the specification words it: the number of periods, from the start of
  the period list, before the first one whose aggregated amount is not strictly
  positive.
\<close>

definition streak_spec :: "'o DataFrame \<Rightarrow> string list \<Rightarrow> string \<Rightarrow> nat" where
  "streak_spec df periods sku = length (takeWhile (\<lambda>p. 0 < period_amount df sku p) periods)"

text \<open>
  Reading the result mapping at a product: \<^verbatim>\<open>streaks.get(sku)\<close>, and nothing when the
  computation raised.
\<close>

definition streak_of :: "'o DataFrame \<Rightarrow> string \<Rightarrow> nat option" where
  "streak_of df sku = (case streaks df of Inl e \<Rightarrow> None | Inr ss \<Rightarrow> map_of ss sku)"

text \<open>
  A well-formed \<^verbatim>\<open>Counter\<close>: its keys are distinct and no stored count is 0.
\<close>

definition counter_ok :: "'a Counter \<Rightarrow> bool" where
  "counter_ok c = (distinct (map fst c) \<and> 0 \<notin> snd ` set c)"

text \<open>
  The loop of \<^const>\<open>pair_counts\<close>, started from any counter.
\<close>

definition count_baskets ::
  "(string \<times> string) Counter \<Rightarrow> string list list \<Rightarrow> (string \<times> string) Counter" where
  "count_baskets c bs =
     foldl (\<lambda>c products. counter_update c (combinations2 (sort products))) c bs"

text \<open>
  The number of position pairs \<open>i < j\<close> of the sorted line items \<open>ps\<close> of one order that
  carry the products \<open>(a, b)\<close>: the product of the numbers of lines of \<open>a\<close> and of \<open>b\<close>
  when \<open>a < b\<close>, the number of pairs of lines of \<open>a\<close> when \<open>a = b\<close>.
\<close>

definition pair_multiplicity :: "string list \<Rightarrow> string \<Rightarrow> string \<Rightarrow> nat" where
  "pair_multiplicity ps a b =
     (if a < b then count_list ps a * count_list ps b
      else if a = b then count_list ps a * (count_list ps a - 1) div 2
      else 0)"

text \<open>
  The number of distinct order ids in which \<open>a\<close> and \<open>b\<close> both appear, on two different
  lines.
\<close>

definition orders_with_both :: "'o DataFrame \<Rightarrow> string \<Rightarrow> string \<Rightarrow> nat" where
  "orders_with_both df a b =
     length (filter (\<lambda>oid. a \<in> set (group_skus df oid) \<and> b \<in> set (remove1 a (group_skus df oid)))
                    (unique (map order_id df)))"

text \<open>
  The table without the rows of one order.
\<close>

definition drop_order :: "'o \<Rightarrow> 'o DataFrame \<Rightarrow> 'o DataFrame" where
  "drop_order oid df = filter (\<lambda>r. order_id r \<noteq> oid) df"

text \<open>
  The order the specification asks of the result: count descending, ties by the
  lexicographic order of the pair.
\<close>

definition count_then_lex ::
  "(string \<times> string) \<times> nat \<Rightarrow> (string \<times> string) \<times> nat \<Rightarrow> bool" where
  "count_then_lex x y =
     (snd y < snd x \<or>
      (snd x = snd y \<and>
       (fst (fst x) < fst (fst y) \<or> (fst (fst x) = fst (fst y) \<and> snd (fst x) \<le> snd (fst y)))))"

section \<open>Example tables\<close>

definition line_item :: "'o \<Rightarrow> string \<Rightarrow> string \<Rightarrow> int \<Rightarrow> 'o SalesRecord" where
  "line_item oid sku m a = \<lparr>order_id = oid, selling_sku_id = sku, order_month = m, subtotal = a\<rparr>"

definition example_orders :: "string DataFrame" where
  "example_orders =
     [line_item ''o1'' ''X'' ''2025-01'' 1, line_item ''o1'' ''Y'' ''2025-01'' 1,
      line_item ''o2'' ''X'' ''2025-01'' 1, line_item ''o2'' ''Y'' ''2025-01'' 1, line_item ''o2'' ''Z'' ''2025-01'' 1]"

definition repeated_line_order :: "string DataFrame" where
  "repeated_line_order =
     [line_item ''o1'' ''A'' ''2025-01'' 1, line_item ''o1'' ''A'' ''2025-01'' 1, line_item ''o1'' ''B'' ''2025-01'' 1]"

definition tied_orders :: "string DataFrame" where
  "tied_orders =
     [line_item ''o1'' ''B'' ''2025-01'' 1, line_item ''o1'' ''C'' ''2025-01'' 1,
      line_item ''o2'' ''A'' ''2025-01'' 1, line_item ''o2'' ''B'' ''2025-01'' 1]"

definition same_product_twice :: "string DataFrame" where
  "same_product_twice = [line_item ''o1'' ''A'' ''2025-01'' 1, line_item ''o1'' ''A'' ''2025-01'' 1]"

definition example_sales :: "string DataFrame" where
  "example_sales =
     [line_item ''o1'' ''A'' ''2025-01'' 5, line_item ''o1'' ''B'' ''2025-01'' 3,
      line_item ''o2'' ''A'' ''2025-02'' 2]"

definition zero_amount_sale :: "string DataFrame" where
  "zero_amount_sale = [line_item ''o1'' ''A'' ''2025-01'' 0]"

text \<open>
  A table with numeric order ids, the rows of order 10 before those of order 9: order 9
  has seven products, which give 21 pairs, and order 10 repeats the last of these pairs.
\<close>

definition many_pairs_orders :: "int DataFrame" where
  "many_pairs_orders =
     [line_item 10 ''P6'' ''2025-01'' 1, line_item 10 ''P7'' ''2025-01'' 1,
      line_item 9 ''P1'' ''2025-01'' 1, line_item 9 ''P2'' ''2025-01'' 1,
      line_item 9 ''P3'' ''2025-01'' 1, line_item 9 ''P4'' ''2025-01'' 1,
      line_item 9 ''P5'' ''2025-01'' 1, line_item 9 ''P6'' ''2025-01'' 1,
      line_item 9 ''P7'' ''2025-01'' 1]"

section \<open>The library operations\<close>

lemma set_unique [simp]: "set (unique xs) = set xs"
  by (simp add: unique_def)

lemma distinct_unique [simp]: "distinct (unique xs)"
  by (simp add: unique_def)

lemma unique_filter: "unique (filter P xs) = filter P (unique xs)"
  by (simp add: unique_def rev_filter remdups_filter)

lemma set_sorted_reverse [simp]: "set (sorted_reverse f xs) = set xs"
  by (simp add: sorted_reverse_def)

lemma length_sorted_reverse [simp]: "length (sorted_reverse f xs) = length xs"
  by (simp add: sorted_reverse_def)

lemma distinct_sorted_reverse [simp]: "distinct (sorted_reverse f xs) = distinct xs"
  by (simp add: sorted_reverse_def)

lemma sorted_reverse_descending:
  "sorted_wrt (\<lambda>x y. f y \<le> f x) (sorted_reverse f xs)"
proof -
  have "sorted (map f (sort_key f (rev xs)))"
    by (rule sorted_sort_key)
  then have "sorted_wrt (\<lambda>x y. f x \<le> f y) (sort_key f (rev xs))"
    by (simp add: sorted_map)
  then show ?thesis
    by (simp add: sorted_reverse_def sorted_wrt_rev)
qed

lemma sorted_reverse_stable:
  "filter (\<lambda>y. f y = k) (sorted_reverse f xs) = filter (\<lambda>y. f y = k) xs"
  by (simp add: sorted_reverse_def rev_filter [symmetric] sort_key_stable)

lemma fillna_pivot_cell: "fillna 0 (pivot_cell df sku month) = period_amount df sku month"
  by (simp add: fillna_def pivot_cell_def period_amount_def split: list.splits)

lemma map_of_graph:
  "k \<in> set ks \<Longrightarrow> map_of (map (\<lambda>k. (k, f k)) ks) k = Some (f k)"
  by (induction ks) auto

lemma current_streak_total:
  assumes "set months \<subseteq> set cols"
  shows "current_streak (map (\<lambda>m. (m, g m)) cols) months n
           = Inr (n + length (takeWhile (\<lambda>m. 0 < g m) months))"
  using assms
proof (induction months arbitrary: n)
  case Nil
  then show ?case by simp
next
  case (Cons m months)
  then have "map_of (map (\<lambda>m. (m, g m)) cols) m = Some (g m)"
    by (simp add: map_of_graph)
  with Cons show ?case by simp
qed

lemma update_fresh:
  "k \<notin> fst ` set al \<Longrightarrow> AList.update k v al = al @ [(k, v)]"
  by (induction al) auto

lemma streaks_loop_total:
  assumes "distinct skus" and "set skus \<inter> fst ` set acc = {}"
    and "\<And>sku. sku \<in> set skus \<Longrightarrow> current_streak (row sku) months 0 = Inr (n sku)"
  shows "streaks_loop (map (\<lambda>sku. (sku, row sku)) skus) months acc
           = Inr (acc @ map (\<lambda>sku. (sku, n sku)) skus)"
  using assms
proof (induction skus arbitrary: acc)
  case Nil
  then show ?case by simp
next
  case (Cons s skus)
  have fresh: "s \<notin> fst ` set acc" using Cons.prems(2) by auto
  have step: "AList.update s (n s) acc = acc @ [(s, n s)]"
    using fresh by (rule update_fresh)
  have "set skus \<inter> fst ` set (acc @ [(s, n s)]) = {}"
    using Cons.prems(1,2) by auto
  with Cons have "streaks_loop (map (\<lambda>sku. (sku, row sku)) skus) months (acc @ [(s, n s)])
      = Inr ((acc @ [(s, n s)]) @ map (\<lambda>sku. (sku, n sku)) skus)"
    by simp
  with Cons.prems(3) [of s] step show ?case by simp
qed

lemma set_latest_months [simp]: "set (latest_months df) = order_month ` set df"
  by (simp add: latest_months_def)

lemma streaks_eq:
  "streaks df = Inr (map (\<lambda>sku. (sku, streak_spec df (latest_months df) sku))
                         (sort (unique (map selling_sku_id df))))"
proof -
  let ?cols = "sort (unique (map order_month df))"
  let ?row = "\<lambda>sku. map (\<lambda>month. (month, fillna 0 (pivot_cell df sku month))) ?cols"
  have cs: "current_streak (?row sku) (latest_months df) 0
              = Inr (streak_spec df (latest_months df) sku)" for sku
  proof -
    have "set (latest_months df) \<subseteq> set ?cols" by simp
    then have "current_streak (map (\<lambda>m. (m, period_amount df sku m)) ?cols) (latest_months df) 0
        = Inr (0 + length (takeWhile (\<lambda>m. 0 < period_amount df sku m) (latest_months df)))"
      by (rule current_streak_total)
    then show ?thesis
      by (simp add: fillna_pivot_cell streak_spec_def)
  qed
  have "streaks_loop (map (\<lambda>sku. (sku, ?row sku)) (sort (unique (map selling_sku_id df))))
          (latest_months df) []
        = Inr ([] @ map (\<lambda>sku. (sku, streak_spec df (latest_months df) sku))
                       (sort (unique (map selling_sku_id df))))"
    by (rule streaks_loop_total) (simp_all add: cs)
  then show ?thesis
    by (simp add: streaks_def pivot_monthly_def)
qed

section \<open>Counters\<close>

lemma counter_get_incr:
  "counter_get (counter_incr c k) k' = counter_get c k' + (if k' = k then 1 else 0)"
  by (simp add: counter_get_def counter_incr_def update_conv')

lemma keys_counter_incr: "fst ` set (counter_incr c k) = insert k (fst ` set c)"
  by (simp add: counter_incr_def dom_update)

lemma values_update: "snd ` set (AList.update k v al) \<subseteq> insert v (snd ` set al)"
  by (induction al) auto

lemma counter_ok_incr: "counter_ok c \<Longrightarrow> counter_ok (counter_incr c k)"
  using values_update [of k "counter_get c k + 1" c]
  by (auto simp: counter_ok_def counter_incr_def distinct_update)

lemma sum_update:
  "sum_list (map snd (AList.update k v al)) + counter_get al k = sum_list (map snd al) + v"
  by (induction al) (auto simp: counter_get_def)

lemma sum_counter_incr: "sum_list (map snd (counter_incr c k)) = sum_list (map snd c) + 1"
  using sum_update [of k "counter_get c k + 1" c] by (simp add: counter_incr_def)

lemma counter_get_update:
  "counter_get (counter_update c xs) k = counter_get c k + count_list xs k"
  by (induction xs arbitrary: c) (auto simp: counter_update_def counter_get_incr)

lemma keys_counter_update: "fst ` set (counter_update c xs) = fst ` set c \<union> set xs"
  by (induction xs arbitrary: c) (auto simp: counter_update_def keys_counter_incr)

lemma counter_ok_update: "counter_ok c \<Longrightarrow> counter_ok (counter_update c xs)"
  by (induction xs arbitrary: c) (auto simp: counter_update_def counter_ok_incr)

lemma sum_counter_update:
  "sum_list (map snd (counter_update c xs)) = sum_list (map snd c) + length xs"
  by (induction xs arbitrary: c) (auto simp: counter_update_def sum_counter_incr)

lemma counter_entry:
  "counter_ok c \<Longrightarrow> (k, v) \<in> set c \<Longrightarrow> counter_get c k = v \<and> 0 < v"
  by (force simp: counter_ok_def counter_get_def)

lemma counter_get_pos_iff:
  "counter_ok c \<Longrightarrow> 0 < counter_get c k \<longleftrightarrow> k \<in> fst ` set c"
proof
  assume ok: "counter_ok c" and "0 < counter_get c k"
  then show "k \<in> fst ` set c"
    by (auto simp: counter_get_def map_of_eq_None_iff split: option.splits dest: map_of_SomeD
        intro: rev_image_eqI)
next
  assume ok: "counter_ok c" and "k \<in> fst ` set c"
  then obtain v where "(k, v) \<in> set c" by auto
  with ok show "0 < counter_get c k" using counter_entry by metis
qed

lemma pair_counts_alt: "pair_counts bs = count_baskets [] bs"
  by (simp add: pair_counts_def count_baskets_def)

lemma counter_get_count_baskets:
  "counter_get (count_baskets c bs) k
     = counter_get c k + (\<Sum>ps\<leftarrow>bs. count_list (combinations2 (sort ps)) k)"
  by (induction bs arbitrary: c) (auto simp: count_baskets_def counter_get_update)

lemma keys_count_baskets:
  "fst ` set (count_baskets c bs) = fst ` set c \<union> (\<Union>ps\<in>set bs. set (combinations2 (sort ps)))"
  by (induction bs arbitrary: c) (auto simp: count_baskets_def keys_counter_update)

lemma counter_ok_count_baskets: "counter_ok c \<Longrightarrow> counter_ok (count_baskets c bs)"
  by (induction bs arbitrary: c) (auto simp: count_baskets_def counter_ok_update)

lemma sum_count_baskets:
  "sum_list (map snd (count_baskets c bs))
     = sum_list (map snd c) + (\<Sum>ps\<leftarrow>bs. length (combinations2 (sort ps)))"
  by (induction bs arbitrary: c) (auto simp: count_baskets_def sum_counter_update)

lemma length_combinations2: "length (combinations2 xs) = length xs * (length xs - 1) div 2"
proof (induction xs)
  case Nil
  then show ?case by simp
next
  case (Cons x xs)
  have "even (length xs * (length xs - 1))" by (cases "length xs") auto
  then have "length xs + length xs * (length xs - 1) div 2 = (length xs + 1) * length xs div 2"
    by (cases "length xs") (auto simp: algebra_simps elim!: evenE)
  with Cons show ?case by simp
qed

section \<open>Baskets and combinations\<close>

lemma multi_item_orders_eq:
  "multi_item_orders df = filter (\<lambda>oid. 1 < length (group_skus df oid)) (group_keys df)"
  by (simp add: multi_item_orders_def order_counts_def filter_map comp_def)

lemma set_group_keys [simp]: "set (group_keys df) = order_id ` set df"
  by (simp add: group_keys_def)

lemma distinct_group_keys [simp]: "distinct (group_keys df)"
  by (simp add: group_keys_def)

lemma df_basket_eq:
  "df_basket df = filter (\<lambda>r. 1 < length (group_skus df (order_id r))) df"
  unfolding df_basket_def multi_item_orders_eq
  by (rule filter_cong) auto

lemma group_keys_filter:
  "group_keys (filter (\<lambda>r. Q (order_id r)) df) = filter Q (group_keys df)"
proof -
  have "map order_id (filter (\<lambda>r. Q (order_id r)) df) = filter Q (map order_id df)"
    by (simp add: filter_map comp_def)
  then show ?thesis
    by (simp add: group_keys_def unique_filter filter_sort)
qed

lemma group_skus_filter:
  "group_skus (filter (\<lambda>r. Q (order_id r)) df) oid = (if Q oid then group_skus df oid else [])"
proof -
  have "filter (\<lambda>r. order_id r = oid) (filter (\<lambda>r. Q (order_id r)) df)
          = filter (\<lambda>r. order_id r = oid \<and> Q oid) df"
    by (auto intro: filter_cong)
  then show ?thesis
    by (simp add: group_skus_def)
qed

lemma baskets_df_basket:
  "baskets (df_basket df)
     = map (group_skus df) (filter (\<lambda>oid. 1 < length (group_skus df oid)) (group_keys df))"
proof -
  define Q where "Q = (\<lambda>oid. 1 < length (group_skus df oid))"
  have b: "df_basket df = filter (\<lambda>r. Q (order_id r)) df"
    by (simp add: df_basket_eq Q_def)
  have "map (group_skus (filter (\<lambda>r. Q (order_id r)) df)) (filter Q (group_keys df))
          = map (group_skus df) (filter Q (group_keys df))"
    by (rule map_cong) (simp_all add: group_skus_filter)
  then have "baskets (df_basket df) = map (group_skus df) (filter Q (group_keys df))"
    by (simp add: baskets_def b group_keys_filter)
  then show ?thesis by (simp add: Q_def)
qed

lemma df_basket_empty_iff: "df_basket df = [] \<longleftrightarrow> baskets (df_basket df) = []"
proof
  assume "df_basket df = []"
  then show "baskets (df_basket df) = []"
    by (simp add: baskets_def group_keys_def unique_def)
next
  assume "baskets (df_basket df) = []"
  then have "group_keys (df_basket df) = []" by (simp add: baskets_def)
  then have "set (group_keys (df_basket df)) = {}" by simp
  then show "df_basket df = []" by simp
qed

lemma most_common_Nil [simp]: "most_common n [] = []"
  by (simp add: most_common_def sorted_reverse_def)

lemma df_pairs_eq: "df_pairs df = most_common 20 (pair_counts (baskets (df_basket df)))"
proof (cases "df_basket df = []")
  case True
  then have "baskets (df_basket df) = []" by (simp add: df_basket_empty_iff)
  with True show ?thesis by (simp add: df_pairs_def pair_counts_def)
next
  case False
  then show ?thesis by (simp add: df_pairs_def Let_def)
qed

lemma set_most_common: "set (most_common n c) \<subseteq> set c"
proof -
  have "set (take n (sorted_reverse snd c)) \<subseteq> set (sorted_reverse snd c)"
    by (rule set_take_subset)
  then show ?thesis by (simp add: most_common_def)
qed

lemma counter_ok_pair_counts: "counter_ok (pair_counts bs)"
  unfolding pair_counts_alt by (rule counter_ok_count_baskets) (simp add: counter_ok_def)

lemma count_list_Pair:
  "count_list (map (Pair y) ys) (a, b) = (if a = y then count_list ys b else 0)"
  by (induction ys) auto

lemma count_list_sort: "count_list (sort xs) a = count_list xs a"
proof -
  have "count (mset (sort xs)) a = count (mset xs) a" by simp
  then show ?thesis by (simp only: count_mset)
qed

lemma choose2_Suc: "Suc n * (Suc n - 1) div 2 = n + n * (n - 1) div 2"
proof -
  have "even (n * (n - 1))" by (cases n) auto
  then show ?thesis
    by (cases n) (auto simp: algebra_simps elim!: evenE)
qed

lemma count_combinations2_sorted:
  "sorted ys \<Longrightarrow> count_list (combinations2 ys) (a, b) = pair_multiplicity ys a b"
proof (induction ys)
  case Nil
  then show ?case by (simp add: pair_multiplicity_def)
next
  case (Cons y ys)
  then have IH: "count_list (combinations2 ys) (a, b) = pair_multiplicity ys a b"
    and le: "\<forall>z\<in>set ys. y \<le> z"
    by simp_all
  have below: "count_list ys z = 0" if "z < y" for z
    using le that by (auto simp: count_list_0_iff)
  have step: "count_list (combinations2 (y # ys)) (a, b)
                = (if a = y then count_list ys b else 0) + pair_multiplicity ys a b"
    by (simp add: count_list_Pair IH)
  consider (lt) "a < b" | (eq) "a = b" | (gt) "b < a" by (rule linorder_cases)
  then show ?case
  proof cases
    case lt
    show ?thesis
    proof (cases "a = y")
      case True
      with lt step show ?thesis by (simp add: pair_multiplicity_def)
    next
      case False
      show ?thesis
      proof (cases "b = y")
        case True
        with lt have "count_list ys a = 0" by (simp add: below)
        with lt step False True show ?thesis by (simp add: pair_multiplicity_def)
      next
        case nb: False
        with lt step False show ?thesis by (simp add: pair_multiplicity_def)
      qed
    qed
  next
    case eq
    show ?thesis
    proof (cases "a = y")
      case True
      with eq step show ?thesis
        using choose2_Suc [of "count_list ys y"] by (simp add: pair_multiplicity_def)
    next
      case False
      with eq step show ?thesis by (simp add: pair_multiplicity_def)
    qed
  next
    case gt
    show ?thesis
    proof (cases "a = y")
      case True
      with gt have "count_list ys b = 0" by (simp add: below)
      with gt step True show ?thesis by (simp add: pair_multiplicity_def)
    next
      case False
      with gt step show ?thesis by (simp add: pair_multiplicity_def)
    qed
  qed
qed

lemma count_combinations2_sort:
  "count_list (combinations2 (sort ps)) (a, b) = pair_multiplicity ps a b"
proof -
  have "count_list (combinations2 (sort ps)) (a, b) = pair_multiplicity (sort ps) a b"
    by (rule count_combinations2_sorted) simp
  then show ?thesis by (simp add: pair_multiplicity_def count_list_sort)
qed

section \<open>The count of a pair\<close>

lemma pair_multiplicity_short: "length ps \<le> 1 \<Longrightarrow> pair_multiplicity ps a b = 0"
proof (cases ps)
  case Nil
  then show ?thesis by (simp add: pair_multiplicity_def)
next
  case (Cons x xs)
  assume "length ps \<le> 1"
  with Cons have "ps = [x]" by simp
  then show ?thesis by (auto simp: pair_multiplicity_def)
qed

lemma entry_count:
  assumes "(k, c) \<in> set (df_pairs df)"
  shows "c = counter_get (pair_counts (baskets (df_basket df))) k \<and> 0 < c"
proof -
  from assms have "(k, c) \<in> set (pair_counts (baskets (df_basket df)))"
    using set_most_common by (auto simp: df_pairs_eq)
  with counter_entry [OF counter_ok_pair_counts] show ?thesis by metis
qed

lemma counter_get_pair_counts:
  "counter_get (pair_counts (baskets (df_basket df))) (a, b)
     = (\<Sum>oid\<leftarrow>group_keys df. pair_multiplicity (group_skus df oid) a b)"
proof -
  let ?Q = "\<lambda>oid. 1 < length (group_skus df oid)"
  have "counter_get (pair_counts (baskets (df_basket df))) (a, b)
          = (\<Sum>ps\<leftarrow>baskets (df_basket df). pair_multiplicity ps a b)"
  proof -
    have "counter_get ([] :: (string \<times> string) Counter) (a, b) = 0"
      by (simp add: counter_get_def)
    then show ?thesis
      by (simp add: pair_counts_alt counter_get_count_baskets count_combinations2_sort)
  qed
  also have "\<dots> = (\<Sum>oid\<leftarrow>filter ?Q (group_keys df). pair_multiplicity (group_skus df oid) a b)"
    by (simp add: baskets_df_basket comp_def)
  also have "\<dots> = (\<Sum>oid\<leftarrow>group_keys df. if ?Q oid then pair_multiplicity (group_skus df oid) a b else 0)"
    by (rule sum_list_map_filter') 
  also have "\<dots> = (\<Sum>oid\<leftarrow>group_keys df. pair_multiplicity (group_skus df oid) a b)"
    by (rule arg_cong [where f = sum_list], rule map_cong)
       (auto simp: pair_multiplicity_short)
  finally show ?thesis .
qed

lemma pair_multiplicity_distinct:
  "distinct ps \<Longrightarrow>
   pair_multiplicity ps a b = (if a < b \<and> a \<in> set ps \<and> b \<in> set ps then 1 else 0)"
proof -
  assume d: "distinct ps"
  have c: "count_list ps x = (if x \<in> set ps then 1 else 0)" for x
    using d by (induction ps) auto
  show ?thesis by (simp add: pair_multiplicity_def c)
qed

lemma sum_list_indicator: "(\<Sum>x\<leftarrow>xs. if P x then 1 else 0) = length (filter P xs)"
  by (induction xs) auto

lemma orders_with_both_keys:
  "a \<noteq> b \<Longrightarrow> orders_with_both df a b
     = length (filter (\<lambda>oid. a \<in> set (group_skus df oid) \<and> b \<in> set (group_skus df oid))
                      (group_keys df))"
proof -
  assume ne: "a \<noteq> b"
  have "mset (filter P (group_keys df)) = mset (filter P (unique (map order_id df)))" for P
    by (simp add: group_keys_def)
  then have "length (filter P (group_keys df)) = length (filter P (unique (map order_id df)))" for P
    by (metis size_mset)
  with ne show ?thesis
    by (simp add: orders_with_both_def in_set_remove1 [of b a])
qed

section \<open>Insertion order of the counted pairs\<close>

lemma unique_snoc:
  "unique (xs @ [k]) = (if k \<in> set xs then unique xs else unique xs @ [k])"
  by (simp add: unique_def)

lemma unique_distinct: "distinct xs \<Longrightarrow> unique xs = xs"
  by (simp add: unique_def distinct_remdups_id)

lemma unique_append_unique: "unique (unique xs @ ys) = unique (xs @ ys)"
proof (induction ys rule: rev_induct)
  case Nil
  then show ?case by (simp add: unique_distinct)
next
  case (snoc y ys)
  have "unique ((unique xs @ ys) @ [y]) = unique ((xs @ ys) @ [y])"
    unfolding unique_snoc using snoc by simp
  then show ?case by simp
qed

lemma keys_update:
  "map fst (AList.update k v al) = (if k \<in> fst ` set al then map fst al else map fst al @ [k])"
  by (induction al) auto

lemma key_order_incr:
  "map fst (counter_incr c k) = (if k \<in> fst ` set c then map fst c else map fst c @ [k])"
  by (simp add: counter_incr_def keys_update)

lemma key_order_update:
  "distinct (map fst c) \<Longrightarrow> map fst (counter_update c xs) = unique (map fst c @ xs)"
proof (induction xs rule: rev_induct)
  case Nil
  then show ?case by (simp add: counter_update_def unique_distinct)
next
  case (snoc x xs)
  have "fst ` set (counter_update c xs) = fst ` set c \<union> set xs"
    by (rule keys_counter_update)
  with snoc show ?case
    by (simp add: counter_update_def key_order_incr unique_snoc flip: append_assoc)
qed

lemma key_order_count_baskets:
  "counter_ok c \<Longrightarrow>
   map fst (count_baskets c bs)
     = unique (map fst c @ concat (map (\<lambda>ps. combinations2 (sort ps)) bs))"
proof (induction bs rule: rev_induct)
  case Nil
  then show ?case by (simp add: count_baskets_def unique_distinct counter_ok_def)
next
  case (snoc ps bs)
  have ok: "counter_ok (count_baskets c bs)"
    using snoc.prems by (rule counter_ok_count_baskets)
  then have d: "distinct (map fst (count_baskets c bs))" by (simp add: counter_ok_def)
  have "map fst (count_baskets c (bs @ [ps]))
          = map fst (counter_update (count_baskets c bs) (combinations2 (sort ps)))"
    by (simp add: count_baskets_def)
  also have "\<dots> = unique (map fst (count_baskets c bs) @ combinations2 (sort ps))"
    using d by (rule key_order_update)
  also have "\<dots> = unique (unique (map fst c @ concat (map (\<lambda>ps. combinations2 (sort ps)) bs))
                            @ combinations2 (sort ps))"
    using snoc by simp
  also have "\<dots> = unique ((map fst c @ concat (map (\<lambda>ps. combinations2 (sort ps)) bs))
                            @ combinations2 (sort ps))"
    by (rule unique_append_unique)
  finally show ?case by simp
qed

lemma key_order_pair_counts:
  "map fst (pair_counts bs) = unique (concat (map (\<lambda>ps. combinations2 (sort ps)) bs))"
proof -
  have "counter_ok ([] :: (string \<times> string) Counter)" by (simp add: counter_ok_def)
  then have "map fst (count_baskets [] bs)
      = unique (map fst ([] :: (string \<times> string) Counter)
                 @ concat (map (\<lambda>ps. combinations2 (sort ps)) bs))"
    by (rule key_order_count_baskets)
  then show ?thesis by (simp add: pair_counts_alt)
qed

lemma filter_take_prefix: "prefix (filter P (take n xs)) (filter P xs)"
proof -
  have "filter P xs = filter P (take n xs) @ filter P (drop n xs)"
    by (simp flip: filter_append)
  then show ?thesis by (rule prefixI)
qed

lemma group_keys_ascending: "sorted_wrt (<) (group_keys df)"
proof -
  have "sorted (group_keys df) \<and> distinct (group_keys df)"
    by (simp add: group_keys_def)
  then show ?thesis by (simp only: strict_sorted_iff)
qed

lemma most_common_cut:
  assumes "e \<in> set c - set (most_common n c)" and "e' \<in> set (most_common n c)"
  shows "snd e \<le> snd e'"
proof -
  let ?xs = "sorted_reverse snd c"
  have "sorted_wrt (\<lambda>x y. snd y \<le> snd x) (take n ?xs @ drop n ?xs)"
    using sorted_reverse_descending [of snd c] by simp
  then have cut: "\<forall>x\<in>set (take n ?xs). \<forall>y\<in>set (drop n ?xs). snd y \<le> snd x"
    by (simp only: sorted_wrt_append) blast
  have "set c = set (take n ?xs) \<union> set (drop n ?xs)"
    using set_append [of "take n ?xs" "drop n ?xs"] by simp
  with assms(1) have "e \<in> set (drop n ?xs)" by (auto simp: most_common_def)
  moreover from assms(2) have "e' \<in> set (take n ?xs)" by (simp add: most_common_def)
  ultimately show ?thesis using cut by blast
qed

section \<open>Removing an order\<close>

lemma baskets_drop_order:
  assumes "length (group_skus df oid) < 2"
  shows "baskets (df_basket (drop_order oid df)) = baskets (df_basket df)"
proof -
  let ?df' = "drop_order oid df"
  have df': "?df' = filter (\<lambda>r. (\<lambda>k. k \<noteq> oid) (order_id r)) df"
    by (simp add: drop_order_def)
  have keys: "group_keys ?df' = filter (\<lambda>k. k \<noteq> oid) (group_keys df)"
    unfolding df' by (rule group_keys_filter)
  have skus: "group_skus ?df' k = (if k \<noteq> oid then group_skus df k else [])" for k
    unfolding df' by (rule group_skus_filter)
  have "filter (\<lambda>k. 1 < length (group_skus ?df' k)) (group_keys ?df')
          = filter (\<lambda>k. 1 < length (group_skus df k)) (group_keys df)"
    unfolding keys filter_filter by (rule filter_cong) (use assms in \<open>auto simp: skus\<close>)
  moreover have "map (group_skus ?df') (filter (\<lambda>k. 1 < length (group_skus df k)) (group_keys df))
      = map (group_skus df) (filter (\<lambda>k. 1 < length (group_skus df k)) (group_keys df))"
    by (rule map_cong) (use assms in \<open>auto simp: skus\<close>)
  ultimately show ?thesis by (simp add: baskets_df_basket)
qed

section \<open>Keys of the counter\<close>

lemma key_pair_counts_iff:
  "k \<in> fst ` set (pair_counts (baskets (df_basket df)))
     \<longleftrightarrow> 0 < counter_get (pair_counts (baskets (df_basket df))) k"
  using counter_get_pos_iff [OF counter_ok_pair_counts] by blast

lemma sum_list_pos_iff: "0 < sum_list (map f xs) \<longleftrightarrow> (\<exists>x\<in>set xs. 0 < (f x :: nat))"
  by (induction xs) auto

lemma choose2_pos_iff: "0 < n * (n - 1) div 2 \<longleftrightarrow> 2 \<le> (n::nat)"
proof
  assume "0 < n * (n - 1) div 2"
  then show "2 \<le> n" by (cases n; cases "n - 1") auto
next
  assume "2 \<le> n"
  then obtain m where "n = Suc (Suc m)" by (metis add_2_eq_Suc le_Suc_ex)
  then show "0 < n * (n - 1) div 2" by simp
qed

lemma pair_multiplicity_self_pos:
  "0 < pair_multiplicity ps a a \<longleftrightarrow> 2 \<le> count_list ps a"
  using choose2_pos_iff [of "count_list ps a"] by (simp add: pair_multiplicity_def)

section \<open>Aggregated amounts and streaks\<close>

lemma latest_months_descending: "sorted_wrt (\<lambda>p q. q < p) (latest_months df)"
proof -
  let ?xs = "sort (rev (unique (map order_month df)))"
  have "sorted ?xs \<and> distinct ?xs" by simp
  then have "sorted_wrt (<) ?xs" by (simp only: strict_sorted_iff)
  then show ?thesis
    by (simp add: latest_months_def sorted_reverse_def sorted_wrt_rev)
qed

lemma period_amount_nonneg:
  "\<forall>r\<in>set df. 0 \<le> subtotal r \<Longrightarrow> 0 \<le> period_amount df sku p"
  unfolding period_amount_def by (rule sum_list_nonneg) auto

lemma sum_list_pos_member:
  fixes f :: "'a \<Rightarrow> int"
  assumes "\<forall>x\<in>set xs. 0 \<le> f x" and "x \<in> set xs" and "0 < f x"
  shows "0 < sum_list (map f xs)"
  using assms
proof (induction xs)
  case Nil
  then show ?case by simp
next
  case (Cons y ys)
  have rest: "0 \<le> sum_list (map f ys)"
    by (rule sum_list_nonneg) (use Cons.prems in auto)
  show ?case
  proof (cases "x = y")
    case True
    with Cons.prems rest show ?thesis by simp
  next
    case False
    with Cons have "0 < sum_list (map f ys)" by simp
    moreover from Cons.prems have "0 \<le> f y" by simp
    ultimately show ?thesis by simp
  qed
qed

lemma period_amount_pos:
  assumes "\<forall>r\<in>set df. 0 \<le> subtotal r" and "r \<in> set df"
    and "selling_sku_id r = sku" and "order_month r = p" and "0 < subtotal r"
  shows "0 < period_amount df sku p"
  unfolding period_amount_def
  by (rule sum_list_pos_member [where x = r]) (use assms in auto)

lemma period_amount_absent:
  "\<forall>r\<in>set df. selling_sku_id r = sku \<longrightarrow> order_month r \<noteq> p \<Longrightarrow> period_amount df sku p = 0"
proof -
  assume "\<forall>r\<in>set df. selling_sku_id r = sku \<longrightarrow> order_month r \<noteq> p"
  then have "filter (\<lambda>r. selling_sku_id r = sku \<and> order_month r = p) df = []"
    by (auto simp: filter_empty_conv)
  then show ?thesis by (simp add: period_amount_def)
qed

lemma streak_of_eq:
  "sku \<in> selling_sku_id ` set df \<Longrightarrow>
   streak_of df sku = Some (streak_spec df (latest_months df) sku)"
proof -
  assume "sku \<in> selling_sku_id ` set df"
  then have "sku \<in> set (sort (unique (map selling_sku_id df)))" by simp
  then show ?thesis
    by (simp add: streak_of_def streaks_eq map_of_graph)
qed

lemma latest_months_nonempty: "df \<noteq> [] \<Longrightarrow> latest_months df \<noteq> []"
proof
  assume "df \<noteq> []" and "latest_months df = []"
  then have "set (latest_months df) = {}" by simp
  then have "order_month ` set df = {}" by (simp only: set_latest_months)
  with \<open>df \<noteq> []\<close> show False by simp
qed

lemma latest_months_hd_greatest:
  assumes "latest_months df \<noteq> []"
  shows "\<forall>r\<in>set df. order_month r \<le> hd (latest_months df)"
proof
  fix r
  assume "r \<in> set df"
  then have r: "order_month r \<in> set (latest_months df)" by simp
  from assms obtain m ms where ms: "latest_months df = m # ms" by (cases "latest_months df") auto
  have "sorted_wrt (\<lambda>p q. q < p) (latest_months df)" by (rule latest_months_descending)
  with ms have "\<forall>q\<in>set ms. q < m" by simp
  with r ms show "order_month r \<le> hd (latest_months df)" by auto
qed

lemma streak_spec_first:
  "periods \<noteq> [] \<Longrightarrow> 1 \<le> streak_spec df periods sku \<longleftrightarrow> 0 < period_amount df sku (hd periods)"
  by (cases periods) (auto simp: streak_spec_def)

section \<open>The streak of a product\<close>

text \<open>
  C2: the computation returns, without raising, one entry per product of the table, in
  ascending order of the products; the entry of a product is the number of periods, from
  the start of the descending list of all periods of the table, before the first period
  whose aggregated amount is not strictly positive. The period list is strictly
  descending and holds exactly the periods of the table. When no amount is negative, a
  period that is not strictly positive is one whose aggregated amount is zero, which
  includes the periods where the product has no row.
\<close>

theorem streaks_meaning:
  "streaks df = Inr (map (\<lambda>sku. (sku, streak_spec df (latest_months df) sku))
                         (sort (unique (map selling_sku_id df))))
   \<and> distinct (sort (unique (map selling_sku_id df)))
   \<and> set (sort (unique (map selling_sku_id df))) = selling_sku_id ` set df
   \<and> sorted_wrt (\<lambda>p q. q < p) (latest_months df)
   \<and> set (latest_months df) = order_month ` set df
   \<and> ((\<forall>r\<in>set df. 0 \<le> subtotal r) \<longrightarrow>
        streak_spec df periods sku
          = length (takeWhile (\<lambda>p. period_amount df sku p \<noteq> 0) periods))"
proof (intro conjI impI)
  show "streaks df = Inr (map (\<lambda>sku. (sku, streak_spec df (latest_months df) sku))
                         (sort (unique (map selling_sku_id df))))"
    by (rule streaks_eq)
  show "distinct (sort (unique (map selling_sku_id df)))" by simp
  show "set (sort (unique (map selling_sku_id df))) = selling_sku_id ` set df" by simp
  show "sorted_wrt (\<lambda>p q. q < p) (latest_months df)" by (rule latest_months_descending)
  show "set (latest_months df) = order_month ` set df" by (rule set_latest_months)
  assume "\<forall>r\<in>set df. 0 \<le> subtotal r"
  then have "0 \<le> period_amount df sku p" for p by (rule period_amount_nonneg)
  then have "(0 < period_amount df sku p) = (period_amount df sku p \<noteq> 0)" for p
    by (simp add: less_le)
  then show "streak_spec df periods sku
          = length (takeWhile (\<lambda>p. period_amount df sku p \<noteq> 0) periods)"
    by (simp add: streak_spec_def)
qed

text \<open>
  The theorem at the three rows of the example table, where no amount is negative.
\<close>

theorem streaks_meaning_witness:
  "list_all (\<lambda>r. 0 \<le> subtotal r) example_sales
   \<and> streaks example_sales = Inr [(''A'', 2), (''B'', 0)]
   \<and> latest_months example_sales = [''2025-02'', ''2025-01'']
   \<and> length (takeWhile (\<lambda>p. period_amount example_sales ''B'' p \<noteq> 0)
                        (latest_months example_sales)) = 0"
proof -
  have h: "list_all (\<lambda>r. 0 \<le> subtotal r) example_sales" by code_simp
  then have h': "\<forall>r\<in>set example_sales. 0 \<le> subtotal r" by (simp only: list_all_iff)
  have m: "latest_months example_sales = [''2025-02'', ''2025-01'']" by code_simp
  have v: "map (\<lambda>sku. (sku, streak_spec example_sales (latest_months example_sales) sku))
               (sort (unique (map selling_sku_id example_sales))) = [(''A'', 2), (''B'', 0)]"
    by code_simp
  have b: "streak_spec example_sales (latest_months example_sales) ''B'' = 0" by code_simp
  note t = streaks_meaning [of example_sales "latest_months example_sales" "''B''"]
  from t v have s: "streaks example_sales = Inr [(''A'', 2), (''B'', 0)]" by simp
  from t h' b have "length (takeWhile (\<lambda>p. period_amount example_sales ''B'' p \<noteq> 0)
                        (latest_months example_sales)) = 0"
    by simp
  with h s m show ?thesis by simp
qed

text \<open>
  C5, as amended: the most recent period is the head of the period list, the greatest
  month of the table. For every product of the table, the streak is at least 1 exactly
  when the aggregated amount of the product in that period is strictly positive;
  this is the case when no amount of the table is negative and the product has a row with
  a strictly positive amount in that period. A product with no row in the most recent
  period has streak 0.
\<close>

theorem recent_period_streak:
  assumes "sku \<in> selling_sku_id ` set df"
  shows "\<exists>n. streak_of df sku = Some n
           \<and> hd (latest_months df) \<in> order_month ` set df
           \<and> (\<forall>r\<in>set df. order_month r \<le> hd (latest_months df))
           \<and> (1 \<le> n \<longleftrightarrow> 0 < period_amount df sku (hd (latest_months df)))
           \<and> ((\<forall>r\<in>set df. 0 \<le> subtotal r)
                \<and> (\<exists>r\<in>set df. selling_sku_id r = sku
                      \<and> order_month r = hd (latest_months df) \<and> 0 < subtotal r)
               \<longrightarrow> 1 \<le> n)
           \<and> ((\<forall>r\<in>set df. selling_sku_id r = sku \<longrightarrow> order_month r \<noteq> hd (latest_months df))
               \<longrightarrow> n = 0)"
proof -
  let ?m = "hd (latest_months df)"
  let ?n = "streak_spec df (latest_months df) sku"
  from assms have "df \<noteq> []" by auto
  then have ne: "latest_months df \<noteq> []" by (rule latest_months_nonempty)
  have first: "1 \<le> ?n \<longleftrightarrow> 0 < period_amount df sku ?m"
    using ne by (rule streak_spec_first)
  have pos: "1 \<le> ?n"
    if "(\<forall>r\<in>set df. 0 \<le> subtotal r)
          \<and> (\<exists>r\<in>set df. selling_sku_id r = sku \<and> order_month r = ?m \<and> 0 < subtotal r)"
    using that first period_amount_pos [of df _ sku ?m] by blast
  have zero: "?n = 0"
    if "\<forall>r\<in>set df. selling_sku_id r = sku \<longrightarrow> order_month r \<noteq> ?m"
  proof -
    from that have "period_amount df sku ?m = 0" by (rule period_amount_absent)
    with first show ?thesis by simp
  qed
  from ne have "?m \<in> set (latest_months df)" by (rule hd_in_set)
  then have mem: "?m \<in> order_month ` set df" by (simp only: set_latest_months)
  have newest: "\<forall>r\<in>set df. order_month r \<le> ?m"
    using ne by (rule latest_months_hd_greatest)
  from assms have "streak_of df sku = Some ?n" by (rule streak_of_eq)
  with mem newest first pos zero show ?thesis by blast
qed

text \<open>
  The theorem at the example table: \<open>B\<close> has no row in the most recent month.
\<close>

theorem recent_period_streak_witness:
  "''B'' \<in> selling_sku_id ` set example_sales
   \<and> list_all (\<lambda>r. \<not> (selling_sku_id r = ''B'' \<and> order_month r = hd (latest_months example_sales)))
        example_sales
   \<and> streak_of example_sales ''B'' = Some 0
   \<and> streak_of example_sales ''A'' = Some 2"
proof -
  have p: "''B'' \<in> selling_sku_id ` set example_sales" by code_simp
  have h: "list_all (\<lambda>r. \<not> (selling_sku_id r = ''B''
              \<and> order_month r = hd (latest_months example_sales))) example_sales"
    by code_simp
  then have h': "\<forall>r\<in>set example_sales. selling_sku_id r = ''B''
                   \<longrightarrow> order_month r \<noteq> hd (latest_months example_sales)"
    by (simp only: list_all_iff) blast
  have a: "streak_of example_sales ''A'' = Some 2" by code_simp
  from recent_period_streak [OF p] h'
  have "streak_of example_sales ''B'' = Some 0" by blast
  with p h a show ?thesis by simp
qed

text \<open>
  A product whose only row, in the most recent month, has the subtotal 0: it has a sale
  in that month, and its streak is 0.
\<close>

theorem recent_period_streak_counterexample:
  "selling_sku_id (hd zero_amount_sale) = ''A''
   \<and> order_month (hd zero_amount_sale) = hd (latest_months zero_amount_sale)
   \<and> streak_of zero_amount_sale ''A'' = Some 0"
  by code_simp

text \<open>
  C6: the streak of every product of the table is at most the number of periods, which
  is the number of distinct months of the table, and a product whose aggregated amount
  is strictly positive in every period has exactly that number as its streak.
\<close>

theorem streak_bounded:
  assumes "sku \<in> selling_sku_id ` set df"
  shows "\<exists>n. streak_of df sku = Some n
           \<and> n \<le> length (latest_months df)
           \<and> length (latest_months df) = card (order_month ` set df)
           \<and> ((\<forall>p\<in>set (latest_months df). 0 < period_amount df sku p)
                \<longrightarrow> n = length (latest_months df))"
proof -
  let ?n = "streak_spec df (latest_months df) sku"
  have le: "?n \<le> length (latest_months df)"
    unfolding streak_spec_def by (rule length_takeWhile_le)
  have "distinct (latest_months df)" by (simp add: latest_months_def)
  then have "card (set (latest_months df)) = length (latest_months df)"
    by (rule distinct_card)
  then have len: "length (latest_months df) = card (order_month ` set df)"
    by (simp only: set_latest_months)
  have full: "?n = length (latest_months df)"
    if "\<forall>p\<in>set (latest_months df). 0 < period_amount df sku p"
  proof -
    from that
    have "takeWhile (\<lambda>p. 0 < period_amount df sku p) (latest_months df) = latest_months df"
      by (rule takeWhile_eq_all_conv [THEN iffD2])
    then show ?thesis by (simp only: streak_spec_def)
  qed
  from assms have "streak_of df sku = Some ?n" by (rule streak_of_eq)
  with le len full show ?thesis by blast
qed

text \<open>
  The theorem at the example table: \<open>A\<close> sells in both months.
\<close>

theorem streak_bounded_witness:
  "''A'' \<in> selling_sku_id ` set example_sales
   \<and> list_all (\<lambda>p. 0 < period_amount example_sales ''A'' p) (latest_months example_sales)
   \<and> streak_of example_sales ''A'' = Some (length (latest_months example_sales))
   \<and> length (latest_months example_sales) = 2"
proof -
  have p: "''A'' \<in> selling_sku_id ` set example_sales" by code_simp
  have h: "list_all (\<lambda>p. 0 < period_amount example_sales ''A'' p) (latest_months example_sales)"
    by code_simp
  then have h': "\<forall>p\<in>set (latest_months example_sales). 0 < period_amount example_sales ''A'' p"
    by (simp only: list_all_iff)
  have l: "length (latest_months example_sales) = 2" by code_simp
  from streak_bounded [OF p] h'
  have "streak_of example_sales ''A'' = Some (length (latest_months example_sales))" by metis
  with p h l show ?thesis by simp
qed

section \<open>Empty input\<close>

text \<open>
  C8: on an empty table the streak computation returns the empty mapping without
  raising, and the pair computation returns the empty sequence.
\<close>

theorem empty_input: "streaks [] = Inr [] \<and> df_pairs [] = []"
  by (simp add: streaks_def pivot_monthly_def latest_months_def unique_def
      sorted_reverse_def df_pairs_def df_basket_def)

section \<open>Pair counts\<close>

text \<open>
  C1, as amended: for every table, the count of each returned pair \<open>(a, b)\<close> is the sum
  over the orders of the number of position pairs of the sorted line items that carry
  \<open>(a, b)\<close>. When no order lists a product on two lines, each retained basket yields
  exactly the pairs \<open>a < b\<close> of its products, each once and none with \<open>a = b\<close>, and the count
  of each returned pair is the number of distinct order ids in which both products
  appear.
\<close>

theorem pair_count_meaning:
  "(\<forall>((a, b), c)\<in>set (df_pairs df).
      c = (\<Sum>oid\<leftarrow>group_keys df. pair_multiplicity (group_skus df oid) a b))
   \<and> ((\<forall>oid\<in>set (group_keys df). distinct (group_skus df oid)) \<longrightarrow>
        (\<forall>ps\<in>set (baskets (df_basket df)). \<forall>a b.
            count_list (combinations2 (sort ps)) (a, b)
              = (if a < b \<and> a \<in> set ps \<and> b \<in> set ps then 1 else 0))
        \<and> (\<forall>((a, b), c)\<in>set (df_pairs df). a < b \<and> c = orders_with_both df a b))"
proof (intro conjI impI)
  show general: "\<forall>((a, b), c)\<in>set (df_pairs df).
      c = (\<Sum>oid\<leftarrow>group_keys df. pair_multiplicity (group_skus df oid) a b)"
    using entry_count [of _ _ df] by (auto simp: counter_get_pair_counts)
  assume d: "\<forall>oid\<in>set (group_keys df). distinct (group_skus df oid)"
  show "\<forall>ps\<in>set (baskets (df_basket df)). \<forall>a b.
            count_list (combinations2 (sort ps)) (a, b)
              = (if a < b \<and> a \<in> set ps \<and> b \<in> set ps then 1 else 0)"
  proof (intro ballI allI)
    fix ps a b
    assume "ps \<in> set (baskets (df_basket df))"
    then obtain oid where "oid \<in> set (group_keys df)" and "ps = group_skus df oid"
      by (auto simp: baskets_df_basket)
    with d have "distinct ps" by blast
    then show "count_list (combinations2 (sort ps)) (a, b)
              = (if a < b \<and> a \<in> set ps \<and> b \<in> set ps then 1 else 0)"
      by (simp only: count_combinations2_sort pair_multiplicity_distinct)
  qed
  show "\<forall>((a, b), c)\<in>set (df_pairs df). a < b \<and> c = orders_with_both df a b"
  proof (clarify)
    fix a b c
    assume e: "((a, b), c) \<in> set (df_pairs df)"
    let ?both = "\<lambda>oid. a \<in> set (group_skus df oid) \<and> b \<in> set (group_skus df oid)"
    from e general
    have c: "c = (\<Sum>oid\<leftarrow>group_keys df. pair_multiplicity (group_skus df oid) a b)"
      by auto
    have pm: "pair_multiplicity (group_skus df oid) a b = (if a < b \<and> ?both oid then 1 else 0)"
      if "oid \<in> set (group_keys df)" for oid
    proof -
      from d that have "distinct (group_skus df oid)" by blast
      then show ?thesis by (rule pair_multiplicity_distinct)
    qed
    have "(\<Sum>oid\<leftarrow>group_keys df. pair_multiplicity (group_skus df oid) a b)
            = (\<Sum>oid\<leftarrow>group_keys df. if a < b \<and> ?both oid then 1 else 0)"
      by (rule arg_cong [where f = sum_list], rule map_cong [OF refl]) (rule pm)
    also have "\<dots> = length (filter (\<lambda>oid. a < b \<and> ?both oid) (group_keys df))"
      by (rule sum_list_indicator)
    finally have c': "c = length (filter (\<lambda>oid. a < b \<and> ?both oid) (group_keys df))"
      using c by simp
    from e have "0 < c" using entry_count by blast
    with c' have lt: "a < b" by (cases "a < b") auto
    with c' have "c = length (filter ?both (group_keys df))" by simp
    with lt show "a < b \<and> c = orders_with_both df a b"
      by (simp add: orders_with_both_keys)
  qed
qed

text \<open>
  The theorem at the five rows of two orders, where its hypothesis holds.
\<close>

theorem pair_count_meaning_witness:
  "list_all (\<lambda>oid. distinct (group_skus example_orders oid)) (group_keys example_orders)
   \<and> ((''X'', ''Y''), 2) \<in> set (df_pairs example_orders)
   \<and> ''X'' < ''Y''
   \<and> orders_with_both example_orders ''X'' ''Y'' = 2"
proof -
  have h: "list_all (\<lambda>oid. distinct (group_skus example_orders oid)) (group_keys example_orders)"
    by code_simp
  then have h': "\<forall>oid\<in>set (group_keys example_orders). distinct (group_skus example_orders oid)"
    by (simp only: list_all_iff)
  have e: "((''X'', ''Y''), 2) \<in> set (df_pairs example_orders)"
    by code_simp
  from pair_count_meaning [of example_orders] h'
  have "\<forall>((a, b), c)\<in>set (df_pairs example_orders).
          a < b \<and> c = orders_with_both example_orders a b"
    by blast
  with e have "''X'' < ''Y'' \<and> 2 = orders_with_both example_orders ''X'' ''Y''"
    by fastforce
  with h e show ?thesis by simp
qed

text \<open>
  An order with the product \<open>A\<close> on two lines and \<open>B\<close> on one: the pair \<open>(A, B)\<close> is counted
  twice for the single order, and the pair \<open>(A, A)\<close> is counted too.
\<close>

theorem pair_count_counterexample:
  "((''A'', ''B''), 2) \<in> set (df_pairs repeated_line_order)
   \<and> orders_with_both repeated_line_order ''A'' ''B'' = 1
   \<and> ((''A'', ''A''), 1) \<in> set (df_pairs repeated_line_order)"
  by code_simp

section \<open>Order and length of the result\<close>

text \<open>
  C3, as amended: the returned sequence is sorted by count descending; the entries of
  equal count keep the order in which the counter first met their pairs; every returned
  entry is an entry of the counter, and an entry of the counter that is not returned has
  a count no greater than any returned one. The counter meets the pairs in the order of
  their first appearance over the retained baskets, which are visited in strictly
  ascending order of the order ids (the numeric order for integer ids), each basket
  giving the combinations of its sorted line items. The length is the smaller of 20 and
  the number of distinct pairs met.
\<close>

theorem top_pairs_order:
  "sorted_wrt (\<lambda>x y. snd y \<le> snd x) (df_pairs df)
   \<and> (\<forall>n. prefix (filter (\<lambda>e. snd e = n) (df_pairs df))
                  (filter (\<lambda>e. snd e = n) (pair_counts (baskets (df_basket df)))))
   \<and> set (df_pairs df) \<subseteq> set (pair_counts (baskets (df_basket df)))
   \<and> (\<forall>e\<in>set (pair_counts (baskets (df_basket df))) - set (df_pairs df).
         \<forall>e'\<in>set (df_pairs df). snd e \<le> snd e')
   \<and> map fst (pair_counts (baskets (df_basket df)))
       = unique (concat (map (\<lambda>ps. combinations2 (sort ps)) (baskets (df_basket df))))
   \<and> baskets (df_basket df)
       = map (group_skus df) (filter (\<lambda>oid. 2 \<le> length (group_skus df oid)) (group_keys df))
   \<and> sorted_wrt (<) (group_keys df)
   \<and> set (group_keys df) = order_id ` set df
   \<and> length (df_pairs df)
       = min 20 (card (set (concat (map (\<lambda>ps. combinations2 (sort ps)) (baskets (df_basket df))))))"
proof (intro conjI allI)
  let ?c = "pair_counts (baskets (df_basket df))"
  let ?all = "concat (map (\<lambda>ps. combinations2 (sort ps)) (baskets (df_basket df)))"
  show "sorted_wrt (\<lambda>x y. snd y \<le> snd x) (df_pairs df)"
    unfolding df_pairs_eq most_common_def
    by (rule sorted_wrt_take) (rule sorted_reverse_descending)
  show "prefix (filter (\<lambda>e. snd e = n) (df_pairs df)) (filter (\<lambda>e. snd e = n) ?c)" for n
  proof -
    have "prefix (filter (\<lambda>e. snd e = n) (take 20 (sorted_reverse snd ?c)))
                 (filter (\<lambda>e. snd e = n) (sorted_reverse snd ?c))"
      by (rule filter_take_prefix)
    then show ?thesis
      by (simp only: df_pairs_eq most_common_def sorted_reverse_stable)
  qed
  show "set (df_pairs df) \<subseteq> set ?c"
    unfolding df_pairs_eq by (rule set_most_common)
  show "\<forall>e\<in>set ?c - set (df_pairs df). \<forall>e'\<in>set (df_pairs df). snd e \<le> snd e'"
    unfolding df_pairs_eq using most_common_cut [of _ ?c 20] by blast
  show keys: "map fst ?c = unique ?all"
    by (rule key_order_pair_counts)
  have "(\<lambda>oid. 2 \<le> length (group_skus df oid)) = (\<lambda>oid. 1 < length (group_skus df oid))"
    by auto
  then show "baskets (df_basket df)
       = map (group_skus df) (filter (\<lambda>oid. 2 \<le> length (group_skus df oid)) (group_keys df))"
    by (simp only: baskets_df_basket)
  show "sorted_wrt (<) (group_keys df)" by (rule group_keys_ascending)
  show "set (group_keys df) = order_id ` set df" by (rule set_group_keys)
  have "length ?c = length (map fst ?c)" by simp
  also have "\<dots> = card (set ?all)"
    unfolding keys using distinct_card [of "unique ?all"] by simp
  finally have "length ?c = card (set ?all)" .
  then show "length (df_pairs df) = min 20 (card (set ?all))"
    by (simp add: df_pairs_eq most_common_def min.commute)
qed

text \<open>
  The theorem at the table with the orders 9 and 10 and 21 distinct pairs: order 9 is
  visited first, the pair counted twice comes first, the pairs of count 1 follow in the
  order the counter met them, and the one left out is the last of them.
\<close>

theorem top_pairs_order_witness:
  "group_keys many_pairs_orders = [9, 10]
   \<and> ((''P5'', ''P7''), 1) \<in> set (pair_counts (baskets (df_basket many_pairs_orders)))
   \<and> ((''P5'', ''P7''), 1) \<notin> set (df_pairs many_pairs_orders)
   \<and> ((''P6'', ''P7''), 2) \<in> set (df_pairs many_pairs_orders)
   \<and> snd ((''P5'', ''P7''), 1 :: nat) \<le> snd ((''P6'', ''P7''), 2 :: nat)
   \<and> take 3 (df_pairs many_pairs_orders)
       = [((''P6'', ''P7''), 2), ((''P1'', ''P2''), 1), ((''P1'', ''P3''), 1)]
   \<and> length (df_pairs many_pairs_orders) = 20"
proof -
  have k: "group_keys many_pairs_orders = [9, 10]" by code_simp
  have a: "((''P5'', ''P7''), 1) \<in> set (pair_counts (baskets (df_basket many_pairs_orders)))"
    by code_simp
  have b: "((''P5'', ''P7''), 1) \<notin> set (df_pairs many_pairs_orders)" by code_simp
  have c: "((''P6'', ''P7''), 2) \<in> set (df_pairs many_pairs_orders)" by code_simp
  have t: "take 3 (df_pairs many_pairs_orders)
       = [((''P6'', ''P7''), 2), ((''P1'', ''P2''), 1), ((''P1'', ''P3''), 1)]"
    by code_simp
  have n: "min 20 (card (set (concat (map (\<lambda>ps. combinations2 (sort ps))
             (baskets (df_basket many_pairs_orders)))))) = 20"
    by code_simp
  note top = top_pairs_order [of many_pairs_orders]
  from top a b c have le: "snd ((''P5'', ''P7''), 1 :: nat) \<le> snd ((''P6'', ''P7''), 2 :: nat)"
    by blast
  from top n have l: "length (df_pairs many_pairs_orders) = 20" by simp
  from k a b c le t l show ?thesis by blast
qed

text \<open>
  Two orders with one pair each, \<open>(B, C)\<close> from the first and \<open>(A, B)\<close> from the second:
  both have count 1 and \<open>(B, C)\<close> comes first, against the lexicographic order.
\<close>

theorem top_pairs_order_counterexample:
  "\<not> sorted_wrt count_then_lex (df_pairs tied_orders)"
  by code_simp

section \<open>Orders with a single line\<close>

text \<open>
  C4, as amended: the baskets that reach the pair enumeration are those of the orders
  with at least 2 line items, and an order with fewer than 2 line items contributes no
  pair: the result is the same without its rows.
\<close>

theorem small_baskets_discarded:
  "baskets (df_basket df)
     = map (group_skus df) (filter (\<lambda>oid. 2 \<le> length (group_skus df oid)) (group_keys df))
   \<and> (length (group_skus df oid) < 2 \<longrightarrow> df_pairs (drop_order oid df) = df_pairs df)"
proof (intro conjI impI)
  have "(\<lambda>oid. 2 \<le> length (group_skus df oid)) = (\<lambda>oid. 1 < length (group_skus df oid))"
    by auto
  then show "baskets (df_basket df)
     = map (group_skus df) (filter (\<lambda>oid. 2 \<le> length (group_skus df oid)) (group_keys df))"
    by (simp only: baskets_df_basket)
  assume "length (group_skus df oid) < 2"
  then have "baskets (df_basket (drop_order oid df)) = baskets (df_basket df)"
    by (rule baskets_drop_order)
  then show "df_pairs (drop_order oid df) = df_pairs df"
    by (simp only: df_pairs_eq)
qed

text \<open>
  The theorem at the example table, whose order \<open>o2\<close> has one line.
\<close>

theorem small_baskets_discarded_witness:
  "length (group_skus example_sales ''o2'') < 2
   \<and> df_pairs (drop_order ''o2'' example_sales) = df_pairs example_sales
   \<and> df_pairs example_sales = [((''A'', ''B''), 1)]"
proof -
  have h: "length (group_skus example_sales ''o2'') < 2" by code_simp
  have v: "df_pairs example_sales = [((''A'', ''B''), 1)]" by code_simp
  from small_baskets_discarded [of example_sales "''o2''"] h
  have "df_pairs (drop_order ''o2'' example_sales) = df_pairs example_sales" by blast
  with h v show ?thesis by simp
qed

text \<open>
  An order with two lines of the same product has exactly 1 distinct product and
  contributes the pair \<open>(A, A)\<close>.
\<close>

theorem small_baskets_discarded_counterexample:
  "card (set (group_skus same_product_twice ''o1'')) = 1
   \<and> df_pairs same_product_twice = [((''A'', ''A''), 1)]
   \<and> df_pairs (drop_order ''o1'' same_product_twice) = []"
  by code_simp

section \<open>Canonical component order\<close>

text \<open>
  C9: every counted key \<open>(a, b)\<close>, and so every returned pair, has \<open>a \<le> b\<close>; a key
  \<open>(a, a)\<close> is counted exactly when some order has the product \<open>a\<close> on at least two
  lines.
\<close>

theorem pair_components_ordered:
  "(\<forall>(a, b)\<in>fst ` set (pair_counts (baskets (df_basket df))). a \<le> b)
   \<and> (\<forall>((a, b), c)\<in>set (df_pairs df). a \<le> b)
   \<and> ((a, a) \<in> fst ` set (pair_counts (baskets (df_basket df)))
        \<longleftrightarrow> (\<exists>oid\<in>set (group_keys df). 2 \<le> count_list (group_skus df oid) a))"
proof (intro conjI)
  let ?c = "pair_counts (baskets (df_basket df))"
  show keys: "\<forall>(a, b)\<in>fst ` set ?c. a \<le> b"
  proof (rule ballI, rule case_prodI2)
    fix k a b
    assume "k \<in> fst ` set ?c" and "k = (a, b)"
    then have "0 < counter_get ?c (a, b)" by (simp only: key_pair_counts_iff)
    then have "0 < (\<Sum>oid\<leftarrow>group_keys df. pair_multiplicity (group_skus df oid) a b)"
      by (simp only: counter_get_pair_counts)
    then obtain oid where "0 < pair_multiplicity (group_skus df oid) a b"
      unfolding sum_list_pos_iff by blast
    then have pos: "0 < pair_multiplicity (group_skus df oid) a b" .
    show "a \<le> b"
    proof (rule ccontr)
      assume "\<not> a \<le> b"
      then have "\<not> a < b" and "a \<noteq> b" by auto
      with pos show False by (simp add: pair_multiplicity_def)
    qed
  qed
  show "\<forall>((a, b), c)\<in>set (df_pairs df). a \<le> b"
  proof clarify
    fix a b c
    assume "((a, b), c) \<in> set (df_pairs df)"
    then have "((a, b), c) \<in> set ?c"
      using set_most_common [of 20 ?c] by (auto simp: df_pairs_eq)
    then have "(a, b) \<in> fst ` set ?c" by force
    with keys show "a \<le> b" by blast
  qed
  have "(a, a) \<in> fst ` set ?c
          \<longleftrightarrow> 0 < (\<Sum>oid\<leftarrow>group_keys df. pair_multiplicity (group_skus df oid) a a)"
    by (simp only: key_pair_counts_iff counter_get_pair_counts)
  also have "\<dots> \<longleftrightarrow> (\<exists>oid\<in>set (group_keys df). 0 < pair_multiplicity (group_skus df oid) a a)"
    by (rule sum_list_pos_iff)
  also have "\<dots> \<longleftrightarrow> (\<exists>oid\<in>set (group_keys df). 2 \<le> count_list (group_skus df oid) a)"
    by (simp only: pair_multiplicity_self_pos)
  finally show "(a, a) \<in> fst ` set ?c
        \<longleftrightarrow> (\<exists>oid\<in>set (group_keys df). 2 \<le> count_list (group_skus df oid) a)" .
qed

text \<open>
  The theorem at the order with \<open>A\<close> on two lines and \<open>B\<close> on one.
\<close>

theorem pair_components_ordered_witness:
  "((''A'', ''B''), 2) \<in> set (df_pairs repeated_line_order)
   \<and> ''A'' \<le> ''B''
   \<and> ''o1'' \<in> set (group_keys repeated_line_order)
   \<and> 2 \<le> count_list (group_skus repeated_line_order ''o1'') ''A''
   \<and> (''A'', ''A'') \<in> fst ` set (pair_counts (baskets (df_basket repeated_line_order)))"
proof -
  have e: "((''A'', ''B''), 2) \<in> set (df_pairs repeated_line_order)" by code_simp
  have o: "''o1'' \<in> set (group_keys repeated_line_order)" by code_simp
  have n: "2 \<le> count_list (group_skus repeated_line_order ''o1'') ''A''" by code_simp
  note t = pair_components_ordered [of repeated_line_order "''A''"]
  from t e have le: "''A'' \<le> ''B''" by fastforce
  from t o n
  have "(''A'', ''A'') \<in> fst ` set (pair_counts (baskets (df_basket repeated_line_order)))"
    by blast
  with e le o n show ?thesis by simp
qed

section \<open>Total number of increments\<close>

text \<open>
  C10: the sum of the counts of all counted pairs is the sum, over the retained
  baskets, of \<open>n * (n - 1) div 2\<close> for the number \<open>n\<close> of line-item rows of the basket,
  the retained baskets being those of the orders with at least 2 rows; each basket of
  \<open>n\<close> rows yields exactly that many combinations.
\<close>

theorem pair_increments_total:
  "sum_list (map snd (pair_counts (baskets (df_basket df))))
     = (\<Sum>ps\<leftarrow>baskets (df_basket df). length ps * (length ps - 1) div 2)
   \<and> sum_list (map snd (pair_counts (baskets (df_basket df))))
     = (\<Sum>oid\<leftarrow>filter (\<lambda>oid. 2 \<le> length (group_skus df oid)) (group_keys df).
          length (group_skus df oid) * (length (group_skus df oid) - 1) div 2)
   \<and> length (combinations2 (sort ps)) = length ps * (length ps - 1) div 2"
proof (intro conjI)
  let ?c = "pair_counts (baskets (df_basket df))"
  have len: "length (combinations2 (sort qs)) = length qs * (length qs - 1) div 2"
    for qs :: "string list"
    by (simp add: length_combinations2)
  show "length (combinations2 (sort ps)) = length ps * (length ps - 1) div 2"
    by (simp add: length_combinations2)
  have "sum_list (map snd ?c)
          = (\<Sum>ps\<leftarrow>baskets (df_basket df). length (combinations2 (sort ps)))"
    by (simp add: pair_counts_alt sum_count_baskets)
  then show total: "sum_list (map snd ?c)
     = (\<Sum>ps\<leftarrow>baskets (df_basket df). length ps * (length ps - 1) div 2)"
    by (simp only: len)
  have "(\<lambda>oid. 2 \<le> length (group_skus df oid)) = (\<lambda>oid. 1 < length (group_skus df oid))"
    by auto
  then show "sum_list (map snd ?c)
     = (\<Sum>oid\<leftarrow>filter (\<lambda>oid. 2 \<le> length (group_skus df oid)) (group_keys df).
          length (group_skus df oid) * (length (group_skus df oid) - 1) div 2)"
    unfolding total by (simp add: baskets_df_basket comp_def)
qed

text \<open>
  The theorem at the order with three lines, which gives 3 increments.
\<close>

theorem pair_increments_total_witness:
  "sum_list (map snd (pair_counts (baskets (df_basket repeated_line_order)))) = 3
   \<and> baskets (df_basket repeated_line_order) = [[''A'', ''A'', ''B'']]"
proof -
  have b: "baskets (df_basket repeated_line_order) = [[''A'', ''A'', ''B'']]" by code_simp
  from pair_increments_total [of repeated_line_order]
  have "sum_list (map snd (pair_counts (baskets (df_basket repeated_line_order))))
     = (\<Sum>ps\<leftarrow>baskets (df_basket repeated_line_order). length ps * (length ps - 1) div 2)"
    by blast
  with b show ?thesis by simp
qed

end
